theory Spec2Isabelle
  imports Main "HOL-Library.Word"
begin

unbundle bit_operations_syntax

section \<open>The SLIP driver of drivers/net/slip.c\<close>

subsection \<open>Configuration and constants\<close>

type_synonym byte = "8 word"

text \<open>
  The macros the driver is compiled with and that its source does not define:
  \<open>CONFIG_NET_SLIP_PKTSIZE\<close>, \<open>CONFIG_NET_IPv4\<close> and \<open>CONFIG_NET_IPv6\<close> of the board
  configuration, \<open>TICK_PER_HSEC\<close> of nuttx/clock.h, and \<open>IP_VERSION_MASK\<close>,
  \<open>IPv4_VERSION\<close> and \<open>IPv6_VERSION\<close> of nuttx/net/ip.h. They are parameters of the
  model.
\<close>

record slip_config =
  pktsize :: nat
  net_ipv4 :: bool
  net_ipv6 :: bool
  tick_per_hsec :: "32 word"
  ip_version_mask :: byte
  ipv4_version :: byte
  ipv6_version :: byte

text \<open>
  The driver refuses to compile with a packet size below 296. \<open>rxlen\<close> and \<open>d_len\<close>
  are \<open>uint16_t\<close>, so a usable buffer capacity fits 16 bits.
\<close>

definition config_ok :: "slip_config \<Rightarrow> bool" where
  "config_ok cfg = (296 \<le> pktsize cfg \<and> pktsize cfg + 2 < 65536)"

definition bufsize :: "slip_config \<Rightarrow> nat" where
  \<comment> \<open>the size of \<open>rxbuf\<close> and of \<open>txbuf\<close>: \<open>CONFIG_NET_SLIP_PKTSIZE + 2\<close>\<close>
  "bufsize cfg = pktsize cfg + 2"

definition SLIP_END :: byte where
  "SLIP_END = 0xC0"

definition SLIP_ESC :: byte where
  "SLIP_ESC = 0xDB"

definition SLIP_ESC_END :: byte where
  "SLIP_ESC_END = 0xDC"

definition SLIP_ESC_ESC :: byte where
  "SLIP_ESC_ESC = 0xDD"

datatype signal = SIGALRM

subsection \<open>The driver structure\<close>

text \<open>
  \<open>dev.d_buf\<close> points at one of the two packet buffers of the structure, or is NULL
  after the \<open>memset\<close> of \<open>slip_initialize\<close>.
\<close>

datatype bufptr = D_NULL | D_RXBUF | D_TXBUF

text \<open>
  A packet buffer is a fixed array of \<open>bufsize\<close> bytes: a map from the index to the
  byte, whose bound is checked where the code reads or writes it. The first \<open>n\<close>
  bytes of a buffer are \<open>packet buf n\<close>.
\<close>

type_synonym pktbuf = "nat \<Rightarrow> byte"

definition packet :: "pktbuf \<Rightarrow> nat \<Rightarrow> byte list" where
  "packet buf n = map buf [0..<n]"

text \<open>
  \<open>struct slip_driver_s\<close> with the fields of \<open>dev\<close> the driver touches: \<open>d_buf\<close>,
  \<open>d_len\<close> and the statistics counters. The file descriptor is an \<open>int16_t\<close>, read
  with \<open>sint\<close>; the task ids are kept as \<open>int\<close>. The semaphore \<open>waitsem\<close> and \<open>net_lock\<close> serialise the two tasks;
  the model runs one task at a time, which takes and releases them around each section,
  so they leave no field here.
\<close>

record slip_driver_s =
  bifup :: bool
  txnodelay :: bool
  fd :: "16 word"
  rxlen :: "16 word"
  rxpid :: int
  txpid :: int
  d_buf :: bufptr
  d_len :: "16 word"
  rx_packets :: "32 word"
  rx_ipv4 :: "32 word"
  rx_ipv6 :: "32 word"
  rx_errors :: "32 word"
  tx_packets :: "32 word"
  tx_done :: "32 word"
  rxbuf :: pktbuf
  txbuf :: pktbuf

text \<open>
  The link: the driver structure together with what it acts on, namely the state of the
  network stack, the bytes written to the serial device so far, the protocol violations
  reported through \<open>nerr\<close>, and the signals sent with \<open>nxsig_kill\<close>.
\<close>

record 'n slip_link = slip_driver_s +
  netstack :: 'n
  tty_out :: "byte list"
  nerr_log :: "byte list"
  sig_sent :: "(int \<times> signal) list"

definition dev_mem :: "'n slip_link \<Rightarrow> pktbuf" where
  \<comment> \<open>the bytes \<open>dev.d_buf\<close> points at\<close>
  "dev_mem s = (case d_buf s of D_RXBUF \<Rightarrow> rxbuf s | D_TXBUF \<Rightarrow> txbuf s | D_NULL \<Rightarrow> (\<lambda>_. 0))"

definition dev_size :: "slip_config \<Rightarrow> 'n slip_link \<Rightarrow> nat" where
  \<comment> \<open>how many bytes may be read through \<open>dev.d_buf\<close>\<close>
  "dev_size cfg s = (case d_buf s of D_NULL \<Rightarrow> 0 | _ \<Rightarrow> bufsize cfg)"

subsection \<open>Statistics\<close>

text \<open>
  Modelled from the spec: the \<open>NETDEV_*\<close> macros of nuttx/net/netdev.h are not among
  the sources. The spec has a packet of an unsupported IP version "counted as an
  error", and \<open>slip_transmit\<close> calls them to "increment statistics": each macro adds
  one to the counter of \<open>dev.d_statistics\<close> it is named after.
\<close>

definition NETDEV_RXPACKETS :: "'n slip_link \<Rightarrow> 'n slip_link" where
  "NETDEV_RXPACKETS s = s\<lparr>rx_packets := rx_packets s + 1\<rparr>"

definition NETDEV_RXIPV4 :: "'n slip_link \<Rightarrow> 'n slip_link" where
  "NETDEV_RXIPV4 s = s\<lparr>rx_ipv4 := rx_ipv4 s + 1\<rparr>"

definition NETDEV_RXIPV6 :: "'n slip_link \<Rightarrow> 'n slip_link" where
  "NETDEV_RXIPV6 s = s\<lparr>rx_ipv6 := rx_ipv6 s + 1\<rparr>"

definition NETDEV_RXERRORS :: "'n slip_link \<Rightarrow> 'n slip_link" where
  "NETDEV_RXERRORS s = s\<lparr>rx_errors := rx_errors s + 1\<rparr>"

definition NETDEV_TXPACKETS :: "'n slip_link \<Rightarrow> 'n slip_link" where
  "NETDEV_TXPACKETS s = s\<lparr>tx_packets := tx_packets s + 1\<rparr>"

definition NETDEV_TXDONE :: "'n slip_link \<Rightarrow> 'n slip_link" where
  "NETDEV_TXDONE s = s\<lparr>tx_done := tx_done s + 1\<rparr>"

subsection \<open>Transmission\<close>

text \<open>
  \<open>slip_write\<close> hands \<open>len\<close> bytes to the serial device, which takes them all (a
  write interrupted by a signal is retried until it succeeds); \<open>slip_putc\<close> writes one
  byte.
\<close>

definition slip_write :: "'n slip_link \<Rightarrow> byte list \<Rightarrow> 'n slip_link" where
  "slip_write s bytes = s\<lparr>tty_out := tty_out s @ bytes\<rparr>"

definition slip_putc :: "'n slip_link \<Rightarrow> byte \<Rightarrow> 'n slip_link" where
  "slip_putc s ch = slip_write s [ch]"

text \<open>
  The \<open>while (remaining-- > 0)\<close> loop of \<open>slip_transmit\<close>. \<open>src\<close> and \<open>start\<close> are
  indices into the buffer \<open>buf\<close> of \<open>lim\<close> bytes; a read past the buffer is undefined
  in C and is the result \<open>None\<close> here. The loop returns \<open>start\<close>, \<open>len\<close> and the link.
\<close>

fun transmit_loop ::
  "pktbuf \<Rightarrow> nat \<Rightarrow> nat \<Rightarrow> nat \<Rightarrow> nat \<Rightarrow> nat \<Rightarrow> 'n slip_link \<Rightarrow> (nat \<times> nat \<times> 'n slip_link) option"
where
  "transmit_loop buf lim src 0 start len s = Some (start, len, s)"
| "transmit_loop buf lim src (Suc remaining) start len s =
     (if lim \<le> src then None
      else if buf src = SLIP_END \<or> buf src = SLIP_ESC then
        (let esc = (if buf src = SLIP_END then SLIP_ESC_END else SLIP_ESC_ESC);
             s1 = (if 0 < len then slip_write s (map buf [start..<start + len]) else s);
             s2 = slip_putc s1 SLIP_ESC;
             s3 = slip_putc s2 esc
         in transmit_loop buf lim (src + 1) remaining (src + 1) 0 s3)
      else transmit_loop buf lim (src + 1) remaining start (len + 1) s)"

text \<open>\<open>slip_transmit\<close> always returns OK; the model returns the link.\<close>

definition slip_transmit :: "slip_config \<Rightarrow> 'n slip_link \<Rightarrow> 'n slip_link option" where
  "slip_transmit cfg s =
     (let s1 = NETDEV_TXPACKETS s;
          s2 = slip_putc s1 SLIP_END
      in case transmit_loop (dev_mem s) (dev_size cfg s) 0 (unat (d_len s)) 0 0 s2 of
           None \<Rightarrow> None
         | Some (start, len, s3) \<Rightarrow>
             (let s4 = (if 0 < len then slip_write s3 (map (dev_mem s) [start..<start + len]) else s3);
                  s5 = slip_putc s4 SLIP_END;
                  s6 = NETDEV_TXDONE s5
              in Some (s6\<lparr>txnodelay := True\<rparr>)))"

text \<open>
  A description of the bytes between the two END bytes, used to state what the loop
  above writes (lemma \<open>slip_transmit_stuff\<close> below proves that it does): each END and
  each ESC of the packet becomes a pair, every other byte stands for itself.
\<close>

definition stuff_byte :: "byte \<Rightarrow> byte list" where
  "stuff_byte b =
     (if b = SLIP_END then [SLIP_ESC, SLIP_ESC_END]
      else if b = SLIP_ESC then [SLIP_ESC, SLIP_ESC_ESC]
      else [b])"

definition stuff :: "byte list \<Rightarrow> byte list" where
  "stuff bs = concat (map stuff_byte bs)"

subsection \<open>Reception\<close>

text \<open>
  The \<open>default\<close> branch of the switch in \<open>slip_receive\<close>: the byte is stored at
  \<open>rxbuf[rxlen]\<close> and \<open>rxlen\<close> is incremented, unless the buffer is full.
\<close>

definition rx_store :: "slip_config \<Rightarrow> byte \<Rightarrow> 'n slip_link \<Rightarrow> 'n slip_link" where
  "rx_store cfg ch s =
     (if unat (rxlen s) < bufsize cfg
      then s\<lparr>rxbuf := (rxbuf s)(unat (rxlen s) := ch), rxlen := rxlen s + 1\<rparr>
      else s)"

definition nerr_violation :: "byte \<Rightarrow> 'n slip_link \<Rightarrow> 'n slip_link" where
  \<comment> \<open>\<open>nerr("ERROR: Protocol violation: %02x\n", ch)\<close>\<close>
  "nerr_violation ch s = s\<lparr>nerr_log := nerr_log s @ [ch]\<rparr>"

text \<open>
  \<open>slip_receive\<close> reads the serial input with \<open>slip_getc\<close> until a packet is complete.
  The input is the list of the bytes still to come. The function returns the link and
  the rest of the input, or it is blocked in \<open>slip_getc\<close>, with the link as it is then,
  when the input ends first.
\<close>

datatype 'a rx_result = Returned 'a "byte list" | Blocked 'a

fun rx_link :: "'a rx_result \<Rightarrow> 'a" where
  \<comment> \<open>the link in either result\<close>
  "rx_link (Returned s inp) = s"
| "rx_link (Blocked s) = s"

fun slip_receive :: "slip_config \<Rightarrow> byte list \<Rightarrow> 'n slip_link \<Rightarrow> 'n slip_link rx_result" where
  "slip_receive cfg [] s = Blocked s"
| "slip_receive cfg (ch # inp) s =
     (if ch = SLIP_END then
        (if 0 < rxlen s then Returned s inp else slip_receive cfg inp s)
      else if ch = SLIP_ESC then
        (case inp of
           [] \<Rightarrow> Blocked s
         | ch2 # inp2 \<Rightarrow>
             if ch2 = SLIP_ESC_END then slip_receive cfg inp2 (rx_store cfg SLIP_END s)
             else if ch2 = SLIP_ESC_ESC then slip_receive cfg inp2 (rx_store cfg SLIP_ESC s)
             else slip_receive cfg inp2 (rx_store cfg ch2 (nerr_violation ch2 s)))
      else slip_receive cfg inp (rx_store cfg ch s))"

subsection \<open>The network stack\<close>

text \<open>
  The entry points of the stack the driver calls. \<open>ipv4_input\<close> and \<open>ipv6_input\<close>
  get the device: they see the stack's state, the packet buffer and \<open>d_len\<close>, and leave
  new ones (a reply, when \<open>d_len\<close> is positive). \<open>devif_loopback\<close> says whether the
  outgoing packet is for this host. \<open>devif_poll\<close> and \<open>devif_timer\<close> run the callback
  they are given once for each packet the stack has to send.
\<close>

record 'n net_stack =
  ipv4_input :: "'n \<Rightarrow> pktbuf \<Rightarrow> 16 word \<Rightarrow> 'n \<times> pktbuf \<times> 16 word"
  ipv6_input :: "'n \<Rightarrow> pktbuf \<Rightarrow> 16 word \<Rightarrow> 'n \<times> pktbuf \<times> 16 word"
  devif_loopback :: "'n \<Rightarrow> pktbuf \<Rightarrow> 16 word \<Rightarrow> bool"
  devif_poll :: "('n slip_link \<Rightarrow> 'n slip_link option) \<Rightarrow> 'n slip_link \<Rightarrow> 'n slip_link option"
  devif_timer :: "('n slip_link \<Rightarrow> 'n slip_link option) \<Rightarrow> 'n slip_link \<Rightarrow> 'n slip_link option"

definition stack_input ::
  "('n \<Rightarrow> pktbuf \<Rightarrow> 16 word \<Rightarrow> 'n \<times> pktbuf \<times> 16 word) \<Rightarrow> 'n slip_link \<Rightarrow> 'n slip_link" where
  \<comment> \<open>a call of an input function while \<open>dev.d_buf\<close> is \<open>rxbuf\<close>\<close>
  "stack_input f s =
     (case f (netstack s) (rxbuf s) (d_len s) of
        (n, buf, len) \<Rightarrow> s\<lparr>rxbuf := buf, d_len := len, netstack := n\<rparr>)"

text \<open>
  The body of the loop of \<open>slip_rxtask\<close> after \<open>slip_receive\<close> has returned: the
  packet is handed to the stack by its IP version, and a reply is sent from the receive
  buffer.
\<close>

definition rx_input :: "'n net_stack \<Rightarrow> slip_config \<Rightarrow> 'n slip_link \<Rightarrow> 'n slip_link option" where
  "rx_input env cfg s =
     (let s1 = s\<lparr>d_buf := D_RXBUF, d_len := rxlen s\<rparr>;
          s2 = NETDEV_RXPACKETS s1
      in if net_ipv4 cfg \<and> (rxbuf s2 0 AND ip_version_mask cfg) = ipv4_version cfg then
           (let s3 = stack_input (ipv4_input env) (NETDEV_RXIPV4 s2)
            in if 0 < d_len s3 then slip_transmit cfg s3 else Some s3)
         else if net_ipv6 cfg \<and> (rxbuf s2 0 AND ip_version_mask cfg) = ipv6_version cfg then
           (let s3 = stack_input (ipv6_input env) (NETDEV_RXIPV6 s2)
            in if 0 < d_len s3 then slip_transmit cfg s3 else Some s3)
         else Some (NETDEV_RXERRORS s2))"

text \<open>
  The loop of \<open>slip_rxtask\<close> over the serial input. The result is the list of the
  packets that \<open>slip_receive\<close> completed, each as \<open>rxbuf\<close> and \<open>rxlen\<close> hold it when it
  returns, and the link when the task is blocked in \<open>slip_getc\<close> at the end of the
  input (\<open>None\<close> after a read past a buffer).
\<close>

function slip_rxtask ::
  "'n net_stack \<Rightarrow> slip_config \<Rightarrow> byte list \<Rightarrow> 'n slip_link \<Rightarrow> byte list list \<times> 'n slip_link option"
where
  "slip_rxtask env cfg [] s = ([], Some s)"
| "slip_rxtask env cfg (ch # inp) s =
     (if \<not> bifup s then slip_rxtask env cfg inp s
      else
        (let s1 = (if ch = SLIP_END then s\<lparr>rxlen := 0\<rparr>
                   else s\<lparr>rxbuf := (rxbuf s)(0 := ch), rxlen := 1\<rparr>)
         in case slip_receive cfg inp s1 of
              Blocked s2 \<Rightarrow> ([], Some s2)
            | Returned s2 inp2 \<Rightarrow>
                (case rx_input env cfg s2 of
                   None \<Rightarrow> ([packet (rxbuf s2) (unat (rxlen s2))], None)
                 | Some s3 \<Rightarrow>
                     (case slip_rxtask env cfg inp2 s3 of
                        (ps, r) \<Rightarrow> (packet (rxbuf s2) (unat (rxlen s2)) # ps, r)))))"
  by pat_completeness auto
termination
proof -
  have shorter: "slip_receive cfg inp s = Returned s' inp' \<Longrightarrow> length inp' < length inp"
    for cfg inp and s s' :: "'n slip_link" and inp'
  proof (induction cfg inp s rule: slip_receive.induct)
    case (1 cfg s)
    then show ?case by simp
  next
    case (2 cfg ch inp s)
    show ?case
    proof (cases "ch = SLIP_END")
      case True
      with 2 show ?thesis by (auto split: if_splits intro: less_SucI)
    next
      case nend: False
      show ?thesis
      proof (cases "ch = SLIP_ESC")
        case False
        with nend 2 show ?thesis by (auto intro: less_SucI)
      next
        case True
        with nend 2 show ?thesis
          by (cases inp) (auto split: if_splits intro: less_SucI)
      qed
    qed
  qed
  show ?thesis
    by (relation "measure (\<lambda>(env, cfg, inp, s). length inp)")
       (auto dest: shorter)
qed

subsection \<open>The transmit task\<close>

text \<open>\<open>slip_txpoll\<close>, the callback of the poll; it always returns 0.\<close>

definition slip_txpoll :: "'n net_stack \<Rightarrow> slip_config \<Rightarrow> 'n slip_link \<Rightarrow> 'n slip_link option" where
  "slip_txpoll env cfg s =
     (if 0 < d_len s then
        (if \<not> devif_loopback env (netstack s) (dev_mem s) (d_len s)
         then slip_transmit cfg s else Some s)
      else Some s)"

datatype poll_kind = Timer_Poll | Tx_Poll

text \<open>
  One iteration of the loop of \<open>slip_txtask\<close>, with the reading \<open>now\<close> of
  \<open>clock_systimer\<close> and the local \<open>start_ticks\<close>. Beside the link, the result says
  whether the iteration slept in \<open>nxsig_usleep\<close> and which poll it made, if any.
\<close>

record 'n txtask_iter =
  slept :: bool
  polled :: "poll_kind option"
  start_ticks :: "32 word"
  link :: "'n slip_link option"

definition slip_txtask_iter ::
  "'n net_stack \<Rightarrow> slip_config \<Rightarrow> 32 word \<Rightarrow> 32 word \<Rightarrow> 'n slip_link \<Rightarrow> 'n txtask_iter" where
  "slip_txtask_iter env cfg now start s =
     (let sl = \<not> txnodelay s;
          s1 = (if \<not> txnodelay s then s else s\<lparr>txnodelay := False\<rparr>)
      in if bifup s1 then
           (let s2 = s1\<lparr>d_buf := D_TXBUF\<rparr>;
                hsec = (now - start) div tick_per_hsec cfg
            in if 0 < hsec then
                 \<lparr>slept = sl, polled = Some Timer_Poll,
                  start_ticks = start + hsec * tick_per_hsec cfg,
                  link = devif_timer env (slip_txpoll env cfg) s2\<rparr>
               else
                 \<lparr>slept = sl, polled = Some Tx_Poll, start_ticks = start,
                  link = devif_poll env (slip_txpoll env cfg) s2\<rparr>)
         else \<lparr>slept = sl, polled = None, start_ticks = start, link = Some s1\<rparr>)"

subsection \<open>The callbacks of the network interface\<close>

text \<open>Each of them returns OK; the model returns the link.\<close>

definition slip_ifup :: "'n slip_link \<Rightarrow> 'n slip_link" where
  "slip_ifup s = s\<lparr>bifup := True\<rparr>"

definition slip_ifdown :: "'n slip_link \<Rightarrow> 'n slip_link" where
  "slip_ifdown s = s\<lparr>bifup := False\<rparr>"

definition slip_txavail :: "'n slip_link \<Rightarrow> 'n slip_link" where
  "slip_txavail s =
     (if bifup s then
        (let s1 = s\<lparr>txnodelay := True\<rparr>
         in s1\<lparr>sig_sent := sig_sent s1 @ [(txpid s1, SIGALRM)]\<rparr>)
      else s)"

subsection \<open>Initialization\<close>

text \<open>
  What \<open>slip_initialize\<close> acts on beside the driver structure: the file descriptors
  this task holds open, the kernel threads that run, and whether the device is
  registered. The results of \<open>nx_open\<close> and of the two \<open>kthread_create\<close> calls (a
  descriptor or a task id, or a negated errno) are given by the system. After each
  \<open>kthread_create\<close> the function waits on \<open>waitsem\<close> until the new task has started;
  here a task that was created runs. The \<open>int\<close> that \<open>nx_open\<close> returns is stored in
  the 16 bits of \<open>priv->fd\<close>, and it is that field the function tests, returns and
  closes. The function returns its status and the system.
\<close>

record 'n slip_sys =
  g_slip :: "'n slip_link"
  open_fds :: "int list"
  kthreads :: "(string \<times> int) list"
  registered :: bool

record sys_calls =
  nx_open :: int
  kthread_create_rx :: int
  kthread_create_tx :: int

definition memset_zero :: "'n slip_link \<Rightarrow> 'n slip_link" where
  \<comment> \<open>\<open>memset(priv, 0, sizeof(struct slip_driver_s))\<close>\<close>
  "memset_zero s =
     s\<lparr>bifup := False, txnodelay := False, fd := 0, rxlen := 0, rxpid := 0, txpid := 0,
       d_buf := D_NULL, d_len := 0, rx_packets := 0, rx_ipv4 := 0, rx_ipv6 := 0,
       rx_errors := 0, tx_packets := 0, tx_done := 0,
       rxbuf := (\<lambda>_. 0), txbuf := (\<lambda>_. 0)\<rparr>"

definition slip_initialize :: "sys_calls \<Rightarrow> 'n slip_sys \<Rightarrow> int \<times> 'n slip_sys" where
  "slip_initialize os sys =
     (let priv = (memset_zero (g_slip sys))\<lparr>fd := word_of_int (nx_open os)\<rparr>;
          sys1 = sys\<lparr>g_slip := priv,
                     open_fds := (if nx_open os < 0 then open_fds sys
                                  else nx_open os # open_fds sys)\<rparr>
      in if sint (fd priv) < 0 then (sint (fd priv), sys1)
         else
           (let priv2 = priv\<lparr>rxpid := kthread_create_rx os\<rparr>;
                sys2 = sys1\<lparr>g_slip := priv2,
                            kthreads := (if kthread_create_rx os < 0 then kthreads sys1
                                         else kthreads sys1 @ [(''rxslip'', kthread_create_rx os)])\<rparr>
            in if rxpid priv2 < 0 then (rxpid priv2, sys2)
               else
                 (let priv3 = priv2\<lparr>txpid := kthread_create_tx os\<rparr>;
                      sys3 = sys2\<lparr>g_slip := priv3,
                                  kthreads := (if kthread_create_tx os < 0 then kthreads sys2
                                               else kthreads sys2 @ [(''txslip'', kthread_create_tx os)])\<rparr>
                  in if txpid priv3 < 0 then (txpid priv3, sys3)
                     else
                       (0, sys3\<lparr>registered := True,
                                open_fds := remove1 (sint (fd priv3)) (open_fds sys3)\<rparr>))))"

subsection \<open>A link to run the driver on\<close>

text \<open>
  A configuration with the smallest packet size the driver accepts and the constants
  of nuttx/net/ip.h, a link that is up with empty buffers, and a stack that takes every
  packet and never answers.
\<close>

definition test_config :: slip_config where
  "test_config = \<lparr>pktsize = 296, net_ipv4 = True, net_ipv6 = True, tick_per_hsec = 50,
     ip_version_mask = 0x70, ipv4_version = 0x40, ipv6_version = 0x60\<rparr>"

definition test_link :: "unit slip_link" where
  "test_link = \<lparr>bifup = True, txnodelay = False, fd = 3, rxlen = 0, rxpid = 10, txpid = 11,
     d_buf = D_TXBUF, d_len = 0, rx_packets = 0, rx_ipv4 = 0, rx_ipv6 = 0, rx_errors = 0,
     tx_packets = 0, tx_done = 0, rxbuf = (\<lambda>_. 0), txbuf = (\<lambda>_. 0),
     netstack = (), tty_out = [], nerr_log = [], sig_sent = []\<rparr>"

definition test_sender :: "unit slip_link" where
  \<comment> \<open>the same link with the one-byte packet 0x45 to send\<close>
  "test_sender = test_link\<lparr>txbuf := (txbuf test_link)(0 := 0x45), d_len := 1\<rparr>"

definition test_stack :: "unit net_stack" where
  "test_stack = \<lparr>ipv4_input = (\<lambda>n buf len. (n, buf, 0)),
     ipv6_input = (\<lambda>n buf len. (n, buf, 0)),
     devif_loopback = (\<lambda>n buf len. False),
     devif_poll = (\<lambda>callback s. Some s),
     devif_timer = (\<lambda>callback s. Some s)\<rparr>"

definition test_sys :: "unit slip_sys" where
  "test_sys = \<lparr>g_slip = test_link, open_fds = [], kthreads = [], registered = False\<rparr>"

section \<open>Properties\<close>

subsection \<open>The special bytes and the stuffed form of a packet\<close>

lemmas slip_chars = SLIP_END_def SLIP_ESC_def SLIP_ESC_END_def SLIP_ESC_ESC_def

lemmas netdev_stats = NETDEV_RXPACKETS_def NETDEV_RXIPV4_def NETDEV_RXIPV6_def
  NETDEV_RXERRORS_def NETDEV_TXPACKETS_def NETDEV_TXDONE_def

lemma slip_chars_distinct [simp]:
  "SLIP_END \<noteq> SLIP_ESC" "SLIP_END \<noteq> SLIP_ESC_END" "SLIP_END \<noteq> SLIP_ESC_ESC"
  "SLIP_ESC \<noteq> SLIP_END" "SLIP_ESC \<noteq> SLIP_ESC_END" "SLIP_ESC \<noteq> SLIP_ESC_ESC"
  "SLIP_ESC_END \<noteq> SLIP_END" "SLIP_ESC_END \<noteq> SLIP_ESC" "SLIP_ESC_END \<noteq> SLIP_ESC_ESC"
  "SLIP_ESC_ESC \<noteq> SLIP_END" "SLIP_ESC_ESC \<noteq> SLIP_ESC" "SLIP_ESC_ESC \<noteq> SLIP_ESC_END"
  by (simp_all add: slip_chars)

lemma stuff_Nil [simp]: "stuff [] = []"
  by (simp add: stuff_def)

lemma stuff_Cons [simp]: "stuff (b # bs) = stuff_byte b @ stuff bs"
  by (simp add: stuff_def)

lemma stuff_append [simp]: "stuff (xs @ ys) = stuff xs @ stuff ys"
  by (simp add: stuff_def)

lemma stuff_plain:
  "\<forall>b\<in>set bs. b \<noteq> SLIP_END \<and> b \<noteq> SLIP_ESC \<Longrightarrow> stuff bs = bs"
  by (induction bs) (simp_all add: stuff_byte_def)

lemma stuff_no_END: "SLIP_END \<notin> set (stuff bs)"
  by (induction bs) (auto simp: stuff_byte_def slip_chars)

lemma stuff_ESC_pairs:
  "i < length (stuff bs) \<Longrightarrow> stuff bs ! i = SLIP_ESC \<Longrightarrow>
   Suc i < length (stuff bs) \<and> (stuff bs ! Suc i = SLIP_ESC_END \<or> stuff bs ! Suc i = SLIP_ESC_ESC)"
proof (induction bs arbitrary: i)
  case Nil
  then show ?case by simp
next
  case (Cons b bs)
  show ?case
  proof (cases "b = SLIP_END \<or> b = SLIP_ESC")
    case False
    then have eq: "stuff (b # bs) = b # stuff bs" by (simp add: stuff_byte_def)
    show ?thesis
    proof (cases i)
      case 0
      with Cons.prems False show ?thesis unfolding eq by simp
    next
      case (Suc j)
      with Cons.prems Cons.IH [of j] show ?thesis unfolding eq by simp
    qed
  next
    case True
    then obtain e where eq: "stuff (b # bs) = SLIP_ESC # e # stuff bs"
      and e: "e = SLIP_ESC_END \<or> e = SLIP_ESC_ESC"
      by (auto simp: stuff_byte_def)
    from e have ne: "e \<noteq> SLIP_ESC" by auto
    show ?thesis
    proof (cases i)
      case 0
      with e show ?thesis unfolding eq by simp
    next
      case (Suc j)
      show ?thesis
      proof (cases j)
        case 0
        with Suc Cons.prems ne show ?thesis unfolding eq by simp
      next
        case (Suc k)
        with \<open>i = Suc j\<close> Cons.prems Cons.IH [of k] show ?thesis unfolding eq by simp
      qed
    qed
  qed
qed

lemma packet_0 [simp]: "packet buf 0 = []"
  by (simp add: packet_def)

lemma packet_Suc: "packet buf (Suc n) = packet buf n @ [buf n]"
  by (simp add: packet_def)

lemma length_packet [simp]: "length (packet buf n) = n"
  by (simp add: packet_def)

lemma packet_upd_above: "n \<le> k \<Longrightarrow> packet (buf(k := b)) n = packet buf n"
  by (simp add: packet_def)

subsection \<open>The encoder writes the stuffed packet between two END bytes\<close>

lemma transmit_loop_stuff:
  assumes "src + remaining \<le> lim" and "start + len = src"
    and "\<forall>i. start \<le> i \<and> i < src \<longrightarrow> buf i \<noteq> SLIP_END \<and> buf i \<noteq> SLIP_ESC"
  shows "\<exists>start' len' out.
           transmit_loop buf lim src remaining start len s = Some (start', len', s\<lparr>tty_out := out\<rparr>)
         \<and> out @ map buf [start'..<start' + len']
             = tty_out s @ stuff (map buf [start..<src + remaining])"
  using assms
proof (induction remaining arbitrary: src start len s)
  case 0
  then have "stuff (map buf [start..<src]) = map buf [start..<src]"
    by (intro stuff_plain) auto
  with 0 show ?case
    by (intro exI [of _ start] exI [of _ len] exI [of _ "tty_out s"]) auto
next
  case (Suc remaining)
  from Suc.prems have in_range: "src < lim" by simp
  have plain: "stuff (map buf [start..<src]) = map buf [start..<src]"
    using Suc.prems by (intro stuff_plain) auto
  have split_range: "[start..<src + Suc remaining] = [start..<src] @ src # [Suc src..<Suc src + remaining]"
  proof -
    have "start \<le> src" using Suc.prems(2) by simp
    then have "[start..<src + Suc remaining] = [start..<src] @ [src..<src + Suc remaining]"
      by (rule upt_add_eq_append)
    also have "[src..<src + Suc remaining] = src # [Suc src..<Suc src + remaining]"
      by (simp add: upt_conv_Cons)
    finally show ?thesis .
  qed
  show ?case
  proof (cases "buf src = SLIP_END \<or> buf src = SLIP_ESC")
    case True
    define s3 where "s3 = s\<lparr>tty_out := tty_out s @ map buf [start..<src] @ stuff_byte (buf src)\<rparr>"
    have step: "transmit_loop buf lim src (Suc remaining) start len s
                = transmit_loop buf lim (Suc src) remaining (Suc src) 0 s3"
    proof (cases "buf src = SLIP_END")
      case e: True
      then show ?thesis
        using in_range Suc.prems(2)
        by (cases "0 < len") (simp_all add: s3_def slip_putc_def slip_write_def stuff_byte_def Let_def)
    next
      case ne: False
      with True have "buf src = SLIP_ESC" by simp
      then show ?thesis
        using in_range Suc.prems(2) ne
        by (cases "0 < len") (simp_all add: s3_def slip_putc_def slip_write_def stuff_byte_def Let_def)
    qed
    have "\<exists>start' len' out.
            transmit_loop buf lim (Suc src) remaining (Suc src) 0 s3 = Some (start', len', s3\<lparr>tty_out := out\<rparr>)
          \<and> out @ map buf [start'..<start' + len']
              = tty_out s3 @ stuff (map buf [Suc src..<Suc src + remaining])"
      using Suc.prems(1) by (intro Suc.IH) auto
    then obtain start' len' out where
      res: "transmit_loop buf lim (Suc src) remaining (Suc src) 0 s3 = Some (start', len', s3\<lparr>tty_out := out\<rparr>)"
      and out: "out @ map buf [start'..<start' + len'] = tty_out s3 @ stuff (map buf [Suc src..<Suc src + remaining])"
      by blast
    have eq: "s3\<lparr>tty_out := out\<rparr> = s\<lparr>tty_out := out\<rparr>"
      by (simp add: s3_def)
    have "tty_out s3 @ stuff (map buf [Suc src..<Suc src + remaining])
          = tty_out s @ stuff (map buf [start..<src + Suc remaining])"
      unfolding split_range by (simp add: s3_def plain)
    with out have "out @ map buf [start'..<start' + len']
          = tty_out s @ stuff (map buf [start..<src + Suc remaining])"
      by (rule trans)
    moreover have "transmit_loop buf lim src (Suc remaining) start len s = Some (start', len', s\<lparr>tty_out := out\<rparr>)"
      by (simp only: step res eq)
    ultimately show ?thesis by blast
  next
    case False
    then have step: "transmit_loop buf lim src (Suc remaining) start len s
                = transmit_loop buf lim (Suc src) remaining start (Suc len) s"
      using in_range by simp
    have "\<forall>i. start \<le> i \<and> i < Suc src \<longrightarrow> buf i \<noteq> SLIP_END \<and> buf i \<noteq> SLIP_ESC"
      using False Suc.prems(3) by (auto simp: less_Suc_eq)
    then have "\<exists>start' len' out.
            transmit_loop buf lim (Suc src) remaining start (Suc len) s = Some (start', len', s\<lparr>tty_out := out\<rparr>)
          \<and> out @ map buf [start'..<start' + len']
              = tty_out s @ stuff (map buf [start..<Suc src + remaining])"
      using Suc.prems(1,2) by (intro Suc.IH) auto
    then show ?thesis
      by (simp only: step add_Suc_shift add_Suc_right add_Suc)
  qed
qed

lemma transmit_loop_fault:
  "src \<le> lim \<Longrightarrow> lim < src + remaining \<Longrightarrow> transmit_loop buf lim src remaining start len s = None"
  by (induction remaining arbitrary: src start len s) (auto simp: Let_def)

lemma slip_transmit_fault:
  "dev_size cfg s < unat (d_len s) \<Longrightarrow> slip_transmit cfg s = None"
  by (simp add: slip_transmit_def Let_def transmit_loop_fault)

lemma slip_transmit_stuff:
  assumes "unat (d_len s) \<le> dev_size cfg s"
  shows "slip_transmit cfg s =
           Some (s\<lparr>txnodelay := True, tx_packets := tx_packets s + 1, tx_done := tx_done s + 1,
                   tty_out := tty_out s @ SLIP_END # stuff (packet (dev_mem s) (unat (d_len s))) @ [SLIP_END]\<rparr>)"
proof -
  define s2 where "s2 = slip_putc (NETDEV_TXPACKETS s) SLIP_END"
  have "\<exists>start len out.
          transmit_loop (dev_mem s) (dev_size cfg s) 0 (unat (d_len s)) 0 0 s2 = Some (start, len, s2\<lparr>tty_out := out\<rparr>)
        \<and> out @ map (dev_mem s) [start..<start + len]
            = tty_out s2 @ stuff (map (dev_mem s) [0..<0 + unat (d_len s)])"
    using assms by (intro transmit_loop_stuff) auto
  then obtain start len out where
    res: "transmit_loop (dev_mem s) (dev_size cfg s) 0 (unat (d_len s)) 0 0 s2 = Some (start, len, s2\<lparr>tty_out := out\<rparr>)"
    and out: "out @ map (dev_mem s) [start..<start + len] = tty_out s2 @ stuff (map (dev_mem s) [0..<unat (d_len s)])"
    by auto
  have "slip_transmit cfg s =
          Some (NETDEV_TXDONE (slip_putc (slip_write (s2\<lparr>tty_out := out\<rparr>) (map (dev_mem s) [start..<start + len])) SLIP_END)
                 \<lparr>txnodelay := True\<rparr>)"
    unfolding slip_transmit_def Let_def s2_def [symmetric] res
    by (cases "0 < len") (simp_all add: slip_write_def)
  also have "\<dots> = Some (s\<lparr>txnodelay := True, tx_packets := tx_packets s + 1, tx_done := tx_done s + 1,
                   tty_out := (out @ map (dev_mem s) [start..<start + len]) @ [SLIP_END]\<rparr>)"
    by (simp add: s2_def slip_putc_def slip_write_def netdev_stats)
  finally show ?thesis
    unfolding out by (simp add: s2_def slip_putc_def slip_write_def netdev_stats packet_def)
qed

lemma slip_transmit_rxlen:
  "slip_transmit cfg s = Some s' \<Longrightarrow> rxlen s' = rxlen s"
proof (cases "unat (d_len s) \<le> dev_size cfg s")
  case True
  assume "slip_transmit cfg s = Some s'"
  with slip_transmit_stuff [OF True] show ?thesis by auto
next
  case False
  assume "slip_transmit cfg s = Some s'"
  with False show ?thesis by (simp add: slip_transmit_fault)
qed

subsection \<open>The decoder stores what was stuffed\<close>

lemma slip_receive_stuff_byte:
  "slip_receive cfg (stuff_byte b @ inp) s = slip_receive cfg inp (rx_store cfg b s)"
  by (simp add: stuff_byte_def slip_chars)

lemma slip_receive_stuff:
  "slip_receive cfg (stuff bs @ inp) s = slip_receive cfg inp (fold (rx_store cfg) bs s)"
  by (induction bs arbitrary: s) (simp_all add: slip_receive_stuff_byte)

lemma unat_rxlen_store:
  "unat (rxlen s) < bufsize cfg \<Longrightarrow> unat (rxlen s) < 65535 \<Longrightarrow>
   unat (rxlen (rx_store cfg b s)) = Suc (unat (rxlen s))"
  by (simp add: rx_store_def unat_word_ariths)

lemma rx_store_full: "bufsize cfg \<le> unat (rxlen s) \<Longrightarrow> rx_store cfg b s = s"
  by (simp add: rx_store_def)

lemma fold_rx_store:
  assumes "unat (rxlen s) \<le> bufsize cfg"
    and "min (bufsize cfg) (unat (rxlen s) + length bs) < 65536"
  shows "\<exists>buf. fold (rx_store cfg) bs s
               = s\<lparr>rxbuf := buf, rxlen := of_nat (min (bufsize cfg) (unat (rxlen s) + length bs))\<rparr>
             \<and> packet buf (min (bufsize cfg) (unat (rxlen s) + length bs))
               = take (bufsize cfg) (packet (rxbuf s) (unat (rxlen s)) @ bs)"
  using assms
proof (induction bs arbitrary: s)
  case Nil
  then show ?case
    by (intro exI [of _ "rxbuf s"]) (simp add: min_absorb2)
next
  case (Cons b bs)
  show ?case
  proof (cases "unat (rxlen s) < bufsize cfg")
    case False
    with Cons.prems have full: "unat (rxlen s) = bufsize cfg" by simp
    then have "rx_store cfg b s = s" by (simp add: rx_store_full)
    moreover have "\<exists>buf. fold (rx_store cfg) bs s
               = s\<lparr>rxbuf := buf, rxlen := of_nat (min (bufsize cfg) (unat (rxlen s) + length bs))\<rparr>
             \<and> packet buf (min (bufsize cfg) (unat (rxlen s) + length bs))
               = take (bufsize cfg) (packet (rxbuf s) (unat (rxlen s)) @ bs)"
      using Cons.prems full by (intro Cons.IH) auto
    ultimately show ?thesis
      using full by (simp add: min_absorb1)
  next
    case True
    define s1 where "s1 = rx_store cfg b s"
    from True Cons.prems(2) have small: "unat (rxlen s) < 65535" by (simp add: min_def split: if_splits)
    with True have n1: "unat (rxlen s1) = Suc (unat (rxlen s))"
      by (simp add: s1_def unat_rxlen_store)
    have buf1: "rxbuf s1 = (rxbuf s)(unat (rxlen s) := b)"
      using True by (simp add: s1_def rx_store_def)
    have "\<exists>buf. fold (rx_store cfg) bs s1
               = s1\<lparr>rxbuf := buf, rxlen := of_nat (min (bufsize cfg) (unat (rxlen s1) + length bs))\<rparr>
             \<and> packet buf (min (bufsize cfg) (unat (rxlen s1) + length bs))
               = take (bufsize cfg) (packet (rxbuf s1) (unat (rxlen s1)) @ bs)"
      using True Cons.prems(2) n1 by (intro Cons.IH) auto
    then obtain buf where
      f: "fold (rx_store cfg) bs s1
               = s1\<lparr>rxbuf := buf, rxlen := of_nat (min (bufsize cfg) (unat (rxlen s1) + length bs))\<rparr>"
      and p: "packet buf (min (bufsize cfg) (unat (rxlen s1) + length bs))
               = take (bufsize cfg) (packet (rxbuf s1) (unat (rxlen s1)) @ bs)"
      by blast
    have len_eq: "unat (rxlen s1) + length bs = unat (rxlen s) + length (b # bs)"
      by (simp add: n1)
    have same: "s1\<lparr>rxbuf := buf, rxlen := w\<rparr> = s\<lparr>rxbuf := buf, rxlen := w\<rparr>" for w
      using True by (simp add: s1_def rx_store_def)
    have "fold (rx_store cfg) (b # bs) s = fold (rx_store cfg) bs s1"
      by (simp add: s1_def)
    also note f
    also note same
    finally have A: "fold (rx_store cfg) (b # bs) s
        = s\<lparr>rxbuf := buf, rxlen := of_nat (min (bufsize cfg) (unat (rxlen s) + length (b # bs)))\<rparr>"
      by (simp only: len_eq)
    have pk: "packet (rxbuf s1) (unat (rxlen s1)) @ bs = packet (rxbuf s) (unat (rxlen s)) @ b # bs"
      by (simp add: n1 buf1 packet_Suc packet_upd_above)
    have B: "packet buf (min (bufsize cfg) (unat (rxlen s) + length (b # bs)))
        = take (bufsize cfg) (packet (rxbuf s) (unat (rxlen s)) @ b # bs)"
      using p by (simp only: len_eq pk)
    from A B show ?thesis by blast
  qed
qed

lemma slip_receive_idle:
  "rxlen s = 0 \<Longrightarrow> slip_receive cfg (replicate n SLIP_END) s = Blocked s"
  by (induction n) simp_all

lemma slip_rxtask_idle:
  "fst (slip_rxtask env cfg (replicate n SLIP_END) r) = []"
  by (induction n) (simp_all add: slip_receive_idle Let_def)

lemma slip_rxtask_one_packet:
  assumes "bifup r"
    and "slip_receive cfg inp (if ch = SLIP_END then r\<lparr>rxlen := 0\<rparr>
                               else r\<lparr>rxbuf := (rxbuf r)(0 := ch), rxlen := 1\<rparr>) = Returned s2 []"
  shows "fst (slip_rxtask env cfg (ch # inp) r) = [packet (rxbuf s2) (unat (rxlen s2))]"
  using assms by (simp add: Let_def split: option.splits prod.splits)

lemma slip_rxtask_single:
  assumes "bifup r"
    and "s1 = (if ch = SLIP_END then r\<lparr>rxlen := 0\<rparr> else r\<lparr>rxbuf := (rxbuf r)(0 := ch), rxlen := 1\<rparr>)"
    and "unat (rxlen s1) \<le> bufsize cfg"
    and "min (bufsize cfg) (unat (rxlen s1) + length bs) < 65536"
    and "0 < min (bufsize cfg) (unat (rxlen s1) + length bs)"
  shows "fst (slip_rxtask env cfg (ch # stuff bs @ [SLIP_END]) r)
           = [take (bufsize cfg) (packet (rxbuf s1) (unat (rxlen s1)) @ bs)]"
proof -
  let ?m = "min (bufsize cfg) (unat (rxlen s1) + length bs)"
  from fold_rx_store [OF assms(3,4)] obtain buf where
    f: "fold (rx_store cfg) bs s1 = s1\<lparr>rxbuf := buf, rxlen := of_nat ?m\<rparr>"
    and p: "packet buf ?m = take (bufsize cfg) (packet (rxbuf s1) (unat (rxlen s1)) @ bs)"
    by blast
  define s2 where "s2 = s1\<lparr>rxbuf := buf, rxlen := of_nat ?m\<rparr>"
  have m: "unat (rxlen s2) = ?m"
    using assms(4) by (simp add: s2_def unat_of_nat)
  with assms(5) have pos: "0 < rxlen s2"
    by (simp add: word_less_nat_alt)
  have "slip_receive cfg (stuff bs @ [SLIP_END]) s1 = slip_receive cfg [SLIP_END] s2"
    by (simp only: slip_receive_stuff f s2_def)
  also have "\<dots> = Returned s2 []"
    using pos by simp
  finally have "fst (slip_rxtask env cfg (ch # stuff bs @ [SLIP_END]) r)
      = [packet (rxbuf s2) (unat (rxlen s2))]"
    using assms(1) unfolding assms(2) by (intro slip_rxtask_one_packet)
  also have "packet (rxbuf s2) (unat (rxlen s2)) = packet buf ?m"
    by (simp add: m) (simp add: s2_def)
  finally show ?thesis
    by (simp only: p)
qed

subsection \<open>The length of the receive buffer\<close>

lemma rx_store_le:
  "unat (rxlen s) \<le> bufsize cfg \<Longrightarrow> unat (rxlen (rx_store cfg b s)) \<le> bufsize cfg"
proof -
  have "unat (rxlen s + 1) \<le> Suc (unat (rxlen s))"
    by (simp add: unat_word_ariths)
  then show "unat (rxlen s) \<le> bufsize cfg \<Longrightarrow> unat (rxlen (rx_store cfg b s)) \<le> bufsize cfg"
    by (auto simp: rx_store_def)
qed

lemma nerr_violation_rxlen [simp]: "rxlen (nerr_violation b s) = rxlen s"
  by (simp add: nerr_violation_def)

lemma slip_receive_le:
  "unat (rxlen s) \<le> bufsize cfg \<Longrightarrow> unat (rxlen (rx_link (slip_receive cfg inp s))) \<le> bufsize cfg"
proof (induction cfg inp s rule: slip_receive.induct)
  case (1 cfg s)
  then show ?case by simp
next
  case (2 cfg ch inp s)
  show ?case
  proof (cases "ch = SLIP_END")
    case True
    with 2 show ?thesis by simp
  next
    case nend: False
    show ?thesis
    proof (cases "ch = SLIP_ESC")
      case False
      with nend 2 show ?thesis by (simp add: rx_store_le)
    next
      case True
      with nend 2 show ?thesis
        by (cases inp) (simp_all add: rx_store_le)
    qed
  qed
qed

lemma rx_input_rxlen:
  "rx_input env cfg s = Some s' \<Longrightarrow> rxlen s' = rxlen s"
  by (auto simp: rx_input_def Let_def stack_input_def netdev_stats
           split: if_splits prod.splits dest!: slip_transmit_rxlen)

lemma slip_rxtask_le:
  "unat (rxlen s) \<le> bufsize cfg \<Longrightarrow> snd (slip_rxtask env cfg inp s) = Some s' \<Longrightarrow>
   unat (rxlen s') \<le> bufsize cfg"
proof (induction env cfg inp s rule: slip_rxtask.induct)
  case (1 env cfg s)
  then show ?case by simp
next
  case (2 env cfg ch inp s)
  show ?case
  proof (cases "bifup s")
    case False
    with 2 show ?thesis by simp
  next
    case True
    define s1 where "s1 = (if ch = SLIP_END then s\<lparr>rxlen := 0\<rparr>
                           else s\<lparr>rxbuf := (rxbuf s)(0 := ch), rxlen := 1\<rparr>)"
    have "unat (rxlen s1) \<le> bufsize cfg"
      by (simp add: s1_def bufsize_def)
    then have le: "unat (rxlen (rx_link (slip_receive cfg inp s1))) \<le> bufsize cfg"
      by (rule slip_receive_le)
    show ?thesis
    proof (cases "slip_receive cfg inp s1")
      case (Blocked s2)
      with True "2.prems"(2) le show ?thesis
        by (simp add: s1_def [symmetric])
    next
      case (Returned s2 inp2)
      show ?thesis
      proof (cases "rx_input env cfg s2")
        case None
        with True Returned "2.prems"(2) show ?thesis
          by (simp add: s1_def [symmetric])
      next
        case (Some s3)
        from Some have "rxlen s3 = rxlen s2" by (rule rx_input_rxlen)
        with le Returned have "unat (rxlen s3) \<le> bufsize cfg" by simp
        moreover from True Returned Some "2.prems"(2)
        have "snd (slip_rxtask env cfg inp2 s3) = Some s'"
          by (simp add: s1_def [symmetric] split: prod.splits)
        moreover have "\<not> \<not> bifup s" using True by simp
        ultimately show ?thesis
          using "2.IH"(2) [OF _ s1_def Returned Some] by simp
      qed
    qed
  qed
qed

section \<open>The claims\<close>

text \<open>
  C1 as stated fails for the packet of length 0: the encoder writes END, END for it, and
  the decoder, which ignores an END while \<open>rxlen\<close> is 0, completes no packet at all.
\<close>

theorem slip_roundtrip_empty_counterexample:
  "packet (dev_mem test_link) (unat (d_len test_link)) = []
   \<and> map_option tty_out (slip_transmit test_config test_link) = Some [SLIP_END, SLIP_END]
   \<and> fst (slip_rxtask test_stack test_config [SLIP_END, SLIP_END] test_link) = []"
  by code_simp

text \<open>
  C1 as amended: for every packet of length 1 to \<open>CONFIG_NET_SLIP_PKTSIZE\<close>,
  \<open>slip_transmit\<close> completes, and the bytes it wrote, read by \<open>slip_rxtask\<close> on a link
  that is up and has no packet in assembly, give exactly one packet, equal to the one
  sent.
\<close>

theorem slip_roundtrip:
  assumes "0 < unat (d_len t)" and "unat (d_len t) \<le> pktsize cfg" and "d_buf t \<noteq> D_NULL"
    and "bifup r"
  shows "\<exists>t'. slip_transmit cfg t = Some t'
           \<and> fst (slip_rxtask env cfg (drop (length (tty_out t)) (tty_out t')) r)
               = [packet (dev_mem t) (unat (d_len t))]"
proof -
  let ?P = "packet (dev_mem t) (unat (d_len t))"
  have size: "dev_size cfg t = bufsize cfg"
    using assms(3) by (cases "d_buf t") (simp_all add: dev_size_def)
  with assms(2) have "unat (d_len t) \<le> dev_size cfg t"
    by (simp add: bufsize_def)
  from slip_transmit_stuff [OF this] obtain t' where
    t': "slip_transmit cfg t = Some t'"
    and out: "tty_out t' = tty_out t @ SLIP_END # stuff ?P @ [SLIP_END]"
    by simp
  define s1 where "s1 = r\<lparr>rxlen := 0\<rparr>"
  have "unat (d_len t) < 65536"
    using unsigned_less [of "d_len t", where 'a = nat] by simp
  then have "fst (slip_rxtask env cfg (SLIP_END # stuff ?P @ [SLIP_END]) r)
           = [take (bufsize cfg) (packet (rxbuf s1) (unat (rxlen s1)) @ ?P)]"
    using assms(1,2,4) by (intro slip_rxtask_single) (auto simp: s1_def bufsize_def)
  also have "take (bufsize cfg) (packet (rxbuf s1) (unat (rxlen s1)) @ ?P) = ?P"
    using assms(2) by (simp add: s1_def bufsize_def)
  finally show ?thesis
    using t' out by simp
qed

theorem slip_roundtrip_witness:
  "0 < unat (d_len (test_link\<lparr>txbuf := (txbuf test_link)(0 := 0x45, 1 := SLIP_END), d_len := 2\<rparr>))
   \<and> unat (d_len (test_link\<lparr>txbuf := (txbuf test_link)(0 := 0x45, 1 := SLIP_END), d_len := 2\<rparr>)) \<le> pktsize test_config
   \<and> d_buf (test_link\<lparr>txbuf := (txbuf test_link)(0 := 0x45, 1 := SLIP_END), d_len := 2\<rparr>) \<noteq> D_NULL
   \<and> bifup test_link
   \<and> (\<exists>t'. slip_transmit test_config (test_link\<lparr>txbuf := (txbuf test_link)(0 := 0x45, 1 := SLIP_END), d_len := 2\<rparr>) = Some t'
           \<and> fst (slip_rxtask test_stack test_config
                    (drop (length (tty_out (test_link\<lparr>txbuf := (txbuf test_link)(0 := 0x45, 1 := SLIP_END), d_len := 2\<rparr>))) (tty_out t'))
                    test_link)
               = [packet (dev_mem (test_link\<lparr>txbuf := (txbuf test_link)(0 := 0x45, 1 := SLIP_END), d_len := 2\<rparr>))
                    (unat (d_len (test_link\<lparr>txbuf := (txbuf test_link)(0 := 0x45, 1 := SLIP_END), d_len := 2\<rparr>)))])"
proof -
  let ?t = "test_link\<lparr>txbuf := (txbuf test_link)(0 := 0x45, 1 := SLIP_END), d_len := 2\<rparr>"
  have h1: "0 < unat (d_len ?t)" by simp
  have h2: "unat (d_len ?t) \<le> pktsize test_config" by (simp add: test_config_def)
  have h3: "d_buf ?t \<noteq> D_NULL" by (simp add: test_link_def)
  have h4: "bifup test_link" by (simp add: test_link_def)
  show ?thesis
    using h1 h2 h3 h4 slip_roundtrip [OF h1 h2 h3 h4, of test_stack] by blast
qed

text \<open>
  C2: what \<open>slip_transmit\<close> writes for a packet is the frame's leading END, a body and
  the frame's trailing END. The body, which stands for the bytes of the packet, has no
  END byte, and every ESC byte in it opens a pair: it is followed at once by ESC_END or
  ESC_ESC. So no END and no ESC of the packet is written as it is.
\<close>

theorem slip_transmit_escaping:
  assumes "unat (d_len s) \<le> dev_size cfg s"
  shows "\<exists>s' body. slip_transmit cfg s = Some s'
           \<and> tty_out s' = tty_out s @ SLIP_END # body @ [SLIP_END]
           \<and> SLIP_END \<notin> set body
           \<and> (\<forall>i<length body. body ! i = SLIP_ESC \<longrightarrow>
                 Suc i < length body \<and> (body ! Suc i = SLIP_ESC_END \<or> body ! Suc i = SLIP_ESC_ESC))"
proof -
  let ?body = "stuff (packet (dev_mem s) (unat (d_len s)))"
  from slip_transmit_stuff [OF assms] obtain s' where
    "slip_transmit cfg s = Some s'" and "tty_out s' = tty_out s @ SLIP_END # ?body @ [SLIP_END]"
    by simp
  then show ?thesis
    using stuff_no_END [of "packet (dev_mem s) (unat (d_len s))"] stuff_ESC_pairs [of _ "packet (dev_mem s) (unat (d_len s))"]
    by blast
qed

theorem slip_transmit_escaping_witness:
  "unat (d_len (test_link\<lparr>txbuf := (txbuf test_link)(0 := SLIP_ESC), d_len := 1\<rparr>))
     \<le> dev_size test_config (test_link\<lparr>txbuf := (txbuf test_link)(0 := SLIP_ESC), d_len := 1\<rparr>)
   \<and> (\<exists>s' body. slip_transmit test_config (test_link\<lparr>txbuf := (txbuf test_link)(0 := SLIP_ESC), d_len := 1\<rparr>) = Some s'
           \<and> tty_out s' = tty_out (test_link\<lparr>txbuf := (txbuf test_link)(0 := SLIP_ESC), d_len := 1\<rparr>) @ SLIP_END # body @ [SLIP_END]
           \<and> SLIP_END \<notin> set body
           \<and> (\<forall>i<length body. body ! i = SLIP_ESC \<longrightarrow>
                 Suc i < length body \<and> (body ! Suc i = SLIP_ESC_END \<or> body ! Suc i = SLIP_ESC_ESC)))"
proof -
  have h: "unat (d_len (test_link\<lparr>txbuf := (txbuf test_link)(0 := SLIP_ESC), d_len := 1\<rparr>))
     \<le> dev_size test_config (test_link\<lparr>txbuf := (txbuf test_link)(0 := SLIP_ESC), d_len := 1\<rparr>)"
    by (simp add: test_link_def test_config_def dev_size_def bufsize_def)
  show ?thesis
    using h slip_transmit_escaping [OF h] by simp
qed

text \<open>
  C3, evaluated where the code departs from it. The link is up and no packet is being
  assembled; the serial input is ESC, ESC_END, END. \<open>slip_rxtask\<close> stores the first
  byte it reads at \<open>rxbuf[0]\<close> whenever it is not END, so the ESC is stored as data and
  the byte after it is not taken as an escape code: the packet handed on is ESC, ESC_END.
  After a leading END the same bytes go through \<open>slip_receive\<close> and give the one-byte
  packet END.
\<close>

theorem slip_rxtask_stores_leading_esc:
  "fst (slip_rxtask test_stack test_config [SLIP_ESC, SLIP_ESC_END, SLIP_END] test_link)
     = [[SLIP_ESC, SLIP_ESC_END]]
   \<and> fst (slip_rxtask test_stack test_config [SLIP_END, SLIP_ESC, SLIP_ESC_END, SLIP_END] test_link)
     = [[SLIP_END]]"
  by code_simp



text \<open>
  C5: \<open>rxlen\<close> stays within \<open>CONFIG_NET_SLIP_PKTSIZE + 2\<close> wherever \<open>slip_receive\<close>
  returns or waits for input, and wherever \<open>slip_rxtask\<close> waits for input; a data
  byte read while the buffer is full is dropped and the link is unchanged; and, for a
  capacity that fits the 16 bits of \<open>rxlen\<close>, \<open>CONFIG_NET_SLIP_PKTSIZE + 2 + 10\<close> bytes
  without END and ESC followed by an END give exactly one packet, the first
  \<open>CONFIG_NET_SLIP_PKTSIZE + 2\<close> of them.
\<close>

theorem rxlen_within_capacity:
  "(unat (rxlen s) \<le> bufsize cfg \<longrightarrow>
      unat (rxlen (rx_link (slip_receive cfg inp s))) \<le> bufsize cfg
      \<and> (\<forall>s'. snd (slip_rxtask env cfg inp s) = Some s' \<longrightarrow> unat (rxlen s') \<le> bufsize cfg))
   \<and> (unat (rxlen s) = bufsize cfg \<and> b \<noteq> SLIP_END \<and> b \<noteq> SLIP_ESC \<longrightarrow>
        slip_receive cfg (b # inp) s = slip_receive cfg inp s)
   \<and> (config_ok cfg \<and> bifup r \<and> length bs = pktsize cfg + 2 + 10
        \<and> (\<forall>b\<in>set bs. b \<noteq> SLIP_END \<and> b \<noteq> SLIP_ESC) \<longrightarrow>
        fst (slip_rxtask env cfg (bs @ [SLIP_END]) r) = [take (pktsize cfg + 2) bs])"
proof (intro conjI impI allI)
  assume "unat (rxlen s) \<le> bufsize cfg"
  then show "unat (rxlen (rx_link (slip_receive cfg inp s))) \<le> bufsize cfg"
    by (rule slip_receive_le)
next
  fix s'
  assume "unat (rxlen s) \<le> bufsize cfg" and "snd (slip_rxtask env cfg inp s) = Some s'"
  then show "unat (rxlen s') \<le> bufsize cfg"
    by (rule slip_rxtask_le)
next
  assume "unat (rxlen s) = bufsize cfg \<and> b \<noteq> SLIP_END \<and> b \<noteq> SLIP_ESC"
  then show "slip_receive cfg (b # inp) s = slip_receive cfg inp s"
    by (simp add: rx_store_full)
next
  assume a: "config_ok cfg \<and> bifup r \<and> length bs = pktsize cfg + 2 + 10
        \<and> (\<forall>b\<in>set bs. b \<noteq> SLIP_END \<and> b \<noteq> SLIP_ESC)"
  then obtain c cs where bs: "bs = c # cs"
    by (cases bs) auto
  define s1 where "s1 = r\<lparr>rxbuf := (rxbuf r)(0 := c), rxlen := 1\<rparr>"
  from a bs have c: "c \<noteq> SLIP_END" and plain: "stuff cs = cs"
    by (auto intro: stuff_plain)
  have "fst (slip_rxtask env cfg (c # stuff cs @ [SLIP_END]) r)
           = [take (bufsize cfg) (packet (rxbuf s1) (unat (rxlen s1)) @ cs)]"
    using a c by (intro slip_rxtask_single) (auto simp: s1_def bufsize_def config_ok_def)
  moreover have "packet (rxbuf s1) (unat (rxlen s1)) = [c]"
    by (simp add: s1_def packet_def)
  ultimately show "fst (slip_rxtask env cfg (bs @ [SLIP_END]) r) = [take (pktsize cfg + 2) bs]"
    by (simp add: plain bs bufsize_def)
qed

theorem rxlen_within_capacity_witness:
  "unat (rxlen (test_link\<lparr>rxlen := 298\<rparr>)) \<le> bufsize test_config
   \<and> unat (rxlen (rx_link (slip_receive test_config [0x41] (test_link\<lparr>rxlen := 298\<rparr>)))) \<le> bufsize test_config
   \<and> snd (slip_rxtask test_stack test_config [] (test_link\<lparr>rxlen := 298\<rparr>)) = Some (test_link\<lparr>rxlen := 298\<rparr>)
   \<and> unat (rxlen (test_link\<lparr>rxlen := 298\<rparr>)) = bufsize test_config
   \<and> (0x41 :: byte) \<noteq> SLIP_END \<and> (0x41 :: byte) \<noteq> SLIP_ESC
   \<and> slip_receive test_config [0x41, 0x42] (test_link\<lparr>rxlen := 298\<rparr>)
       = slip_receive test_config [0x42] (test_link\<lparr>rxlen := 298\<rparr>)
   \<and> config_ok test_config \<and> bifup test_link
   \<and> length (replicate 308 (0x41 :: byte)) = pktsize test_config + 2 + 10
   \<and> fst (slip_rxtask test_stack test_config (replicate 308 0x41 @ [SLIP_END]) test_link)
       = [take (pktsize test_config + 2) (replicate 308 0x41)]"
proof -
  have h: "config_ok test_config \<and> bifup test_link
      \<and> length (replicate 308 (0x41 :: byte)) = pktsize test_config + 2 + 10
      \<and> (\<forall>b\<in>set (replicate 308 (0x41 :: byte)). b \<noteq> SLIP_END \<and> b \<noteq> SLIP_ESC)"
    by (simp add: config_ok_def test_config_def test_link_def slip_chars)
  have g: "unat (rxlen (test_link\<lparr>rxlen := 298\<rparr>)) = bufsize test_config"
    by (simp add: bufsize_def test_config_def)
  have c: "(0x41 :: byte) \<noteq> SLIP_END \<and> (0x41 :: byte) \<noteq> SLIP_ESC"
    by (simp add: slip_chars)
  have e: "snd (slip_rxtask test_stack test_config [] (test_link\<lparr>rxlen := 298\<rparr>)) = Some (test_link\<lparr>rxlen := 298\<rparr>)"
    by simp
  from rxlen_within_capacity [of "test_link\<lparr>rxlen := 298\<rparr>" test_config "[0x41]" test_stack
      "0x41" test_link "replicate 308 0x41"] h g c
  have 1: "unat (rxlen (rx_link (slip_receive test_config [0x41] (test_link\<lparr>rxlen := 298\<rparr>)))) \<le> bufsize test_config"
    and 3: "fst (slip_rxtask test_stack test_config (replicate 308 0x41 @ [SLIP_END]) test_link)
       = [take (pktsize test_config + 2) (replicate 308 0x41)]"
    by simp_all
  from rxlen_within_capacity [of "test_link\<lparr>rxlen := 298\<rparr>" test_config "[0x42]" test_stack
      "0x41" test_link "replicate 308 0x41"] g c
  have 2: "slip_receive test_config [0x41, 0x42] (test_link\<lparr>rxlen := 298\<rparr>)
       = slip_receive test_config [0x42] (test_link\<lparr>rxlen := 298\<rparr>)"
    by simp
  from h g c e 1 2 3 show ?thesis by simp
qed

text \<open>
  C6: for a packet of length 0, \<open>slip_transmit\<close> writes exactly two bytes, both END;
  and from an input of \<open>n\<close> END bytes \<open>slip_rxtask\<close> completes no packet.
\<close>

theorem slip_idle:
  "map_option tty_out (slip_transmit cfg (s\<lparr>d_len := 0\<rparr>)) = Some (tty_out s @ [SLIP_END, SLIP_END])
   \<and> fst (slip_rxtask env cfg (replicate n SLIP_END) r) = []"
  by (simp add: slip_rxtask_idle slip_transmit_def slip_putc_def slip_write_def netdev_stats)

text \<open>
  C7 as stated fails: before it looks at the version, \<open>slip_rxtask\<close> points
  \<open>dev.d_buf\<close> at the receive buffer, copies \<open>rxlen\<close> to \<open>dev.d_len\<close> and counts a
  received packet, so more than the error counter changes.
\<close>

theorem rx_input_changes_more_counterexample:
  "d_buf (test_link\<lparr>rxlen := 1\<rparr>) = D_TXBUF
   \<and> map_option d_buf (rx_input test_stack test_config (test_link\<lparr>rxlen := 1\<rparr>)) = Some D_RXBUF
   \<and> d_len (test_link\<lparr>rxlen := 1\<rparr>) = 0
   \<and> map_option d_len (rx_input test_stack test_config (test_link\<lparr>rxlen := 1\<rparr>)) = Some 1
   \<and> rx_packets (test_link\<lparr>rxlen := 1\<rparr>) = 0
   \<and> map_option rx_packets (rx_input test_stack test_config (test_link\<lparr>rxlen := 1\<rparr>)) = Some 1
   \<and> map_option rx_errors (rx_input test_stack test_config (test_link\<lparr>rxlen := 1\<rparr>)) = Some 1"
  by (simp add: rx_input_def netdev_stats Let_def test_link_def test_config_def)

text \<open>
  C7 as amended: for a completed packet whose version is neither that of IPv4 nor that
  of IPv6, the part of \<open>slip_rxtask\<close> after \<open>slip_receive\<close> counts a received packet
  and an error, leaves \<open>dev.d_buf\<close> and \<open>dev.d_len\<close> describing the packet, and does
  nothing else: the stack's state and the serial output are as before, whatever the
  stack's input functions are.
\<close>

theorem rx_input_unsupported_version:
  assumes "(rxbuf s 0 AND ip_version_mask cfg) \<noteq> ipv4_version cfg"
    and "(rxbuf s 0 AND ip_version_mask cfg) \<noteq> ipv6_version cfg"
  shows "rx_input env cfg s =
           Some (s\<lparr>d_buf := D_RXBUF, d_len := rxlen s,
                   rx_packets := rx_packets s + 1, rx_errors := rx_errors s + 1\<rparr>)"
  using assms by (simp add: rx_input_def netdev_stats Let_def)

theorem rx_input_unsupported_version_witness:
  "(rxbuf (test_link\<lparr>rxlen := 1\<rparr>) 0 AND ip_version_mask test_config) \<noteq> ipv4_version test_config
   \<and> (rxbuf (test_link\<lparr>rxlen := 1\<rparr>) 0 AND ip_version_mask test_config) \<noteq> ipv6_version test_config
   \<and> rx_input test_stack test_config (test_link\<lparr>rxlen := 1\<rparr>) =
           Some (test_link\<lparr>rxlen := 1\<rparr>\<lparr>d_buf := D_RXBUF, d_len := rxlen (test_link\<lparr>rxlen := 1\<rparr>),
                   rx_packets := rx_packets (test_link\<lparr>rxlen := 1\<rparr>) + 1,
                   rx_errors := rx_errors (test_link\<lparr>rxlen := 1\<rparr>) + 1\<rparr>)"
proof -
  have h1: "(rxbuf (test_link\<lparr>rxlen := 1\<rparr>) 0 AND ip_version_mask test_config) \<noteq> ipv4_version test_config"
    and h2: "(rxbuf (test_link\<lparr>rxlen := 1\<rparr>) 0 AND ip_version_mask test_config) \<noteq> ipv6_version test_config"
    by (simp_all add: test_link_def test_config_def)
  show ?thesis
    using h1 h2 rx_input_unsupported_version [OF h1 h2, of test_stack] by simp
qed

text \<open>
  C8, evaluated where the code departs from it. \<open>nx_open\<close> returns descriptor 3.
  When the first \<open>kthread_create\<close> fails with -12, \<open>slip_initialize\<close> returns -12 and
  descriptor 3 is still open; when the second one fails, it returns -12, descriptor 3
  is still open and the receiver task still runs. When both succeed it returns 0 and
  has closed the descriptor.
\<close>

theorem slip_initialize_leaks_fd:
  "fst (slip_initialize \<lparr>nx_open = 3, kthread_create_rx = - 12, kthread_create_tx = 11\<rparr> test_sys) = - 12
   \<and> open_fds (snd (slip_initialize \<lparr>nx_open = 3, kthread_create_rx = - 12, kthread_create_tx = 11\<rparr> test_sys)) = [3]
   \<and> fst (slip_initialize \<lparr>nx_open = 3, kthread_create_rx = 10, kthread_create_tx = - 12\<rparr> test_sys) = - 12
   \<and> open_fds (snd (slip_initialize \<lparr>nx_open = 3, kthread_create_rx = 10, kthread_create_tx = - 12\<rparr> test_sys)) = [3]
   \<and> kthreads (snd (slip_initialize \<lparr>nx_open = 3, kthread_create_rx = 10, kthread_create_tx = - 12\<rparr> test_sys))
       = [(''rxslip'', 10)]
   \<and> fst (slip_initialize \<lparr>nx_open = 3, kthread_create_rx = 10, kthread_create_tx = 11\<rparr> test_sys) = 0
   \<and> open_fds (snd (slip_initialize \<lparr>nx_open = 3, kthread_create_rx = 10, kthread_create_tx = 11\<rparr> test_sys)) = []"
  by (simp add: slip_initialize_def test_sys_def Let_def)

text \<open>
  C9 as stated fails: on a link that is down, \<open>slip_txavail\<close> leaves \<open>txnodelay\<close> false
  and sends no signal.
\<close>

theorem slip_txavail_down_counterexample:
  "\<not> bifup (slip_ifdown test_link)
   \<and> txnodelay (slip_txavail (slip_ifdown test_link)) = False
   \<and> sig_sent (slip_txavail (slip_ifdown test_link)) = []"
  by (simp add: test_link_def slip_ifdown_def slip_txavail_def)

text \<open>
  C9 as amended: a call of \<open>slip_txavail\<close> while the interface is up sets \<open>txnodelay\<close>
  and wakes the transmit task by sending SIGALRM to \<open>txpid\<close>; a call while the interface
  is down changes nothing.
\<close>

theorem slip_txavail_up_only:
  "(bifup s \<longrightarrow> txnodelay (slip_txavail s)
        \<and> sig_sent (slip_txavail s) = sig_sent s @ [(txpid s, SIGALRM)])
   \<and> (\<not> bifup s \<longrightarrow> slip_txavail s = s)"
  by (simp add: slip_txavail_def)

theorem slip_txavail_up_only_witness:
  "bifup test_link
   \<and> txnodelay (slip_txavail test_link)
   \<and> sig_sent (slip_txavail test_link) = sig_sent test_link @ [(txpid test_link, SIGALRM)]
   \<and> \<not> bifup (slip_ifdown test_link)
   \<and> slip_txavail (slip_ifdown test_link) = slip_ifdown test_link"
  using slip_txavail_up_only [of test_link] slip_txavail_up_only [of "slip_ifdown test_link"]
  by (simp add: test_link_def slip_ifdown_def)

text \<open>
  C10 as stated fails on a link that is down: \<open>slip_transmit\<close> completes for a one-byte
  packet and leaves \<open>txnodelay\<close> true, and the iteration of the transmit task that
  follows does not sleep, but it makes no poll and clears the flag.
\<close>

theorem slip_txtask_down_no_poll_counterexample:
  "bifup (slip_ifdown test_sender) = False
   \<and> map_option tty_out
        (slip_transmit test_config (slip_ifdown test_sender))
       = Some [SLIP_END, 0x45, SLIP_END]
   \<and> map_option txnodelay
        (slip_transmit test_config (slip_ifdown test_sender))
       = Some True
   \<and> map_option (slept \<circ> slip_txtask_iter test_stack test_config 0 0)
        (slip_transmit test_config (slip_ifdown test_sender))
       = Some False
   \<and> map_option (polled \<circ> slip_txtask_iter test_stack test_config 0 0)
        (slip_transmit test_config (slip_ifdown test_sender))
       = Some None
   \<and> map_option (map_option txnodelay \<circ> link \<circ> slip_txtask_iter test_stack test_config 0 0)
        (slip_transmit test_config (slip_ifdown test_sender))
       = Some (Some False)"
  by code_simp

text \<open>
  C10 as amended: a call of \<open>slip_transmit\<close> whose packet lies within the buffer
  completes, and \<open>txnodelay\<close> is true after it. The iteration of the transmit task that
  starts from that link never sleeps and clears the flag. When the interface is up it
  points \<open>dev.d_buf\<close> at the transmit buffer and hands \<open>slip_txpoll\<close> to the stack's
  poll: to \<open>devif_timer\<close> when half a second or more has passed since \<open>start_ticks\<close>,
  else to \<open>devif_poll\<close>. When the interface is down it makes no poll.
\<close>

theorem slip_transmit_sets_txnodelay:
  assumes "unat (d_len s) \<le> dev_size cfg s"
  shows "\<exists>s'. slip_transmit cfg s = Some s'
           \<and> txnodelay s'
           \<and> \<not> slept (slip_txtask_iter env cfg now start s')
           \<and> (bifup s' \<and> 0 < (now - start) div tick_per_hsec cfg \<longrightarrow>
                polled (slip_txtask_iter env cfg now start s') = Some Timer_Poll
                \<and> link (slip_txtask_iter env cfg now start s')
                    = devif_timer env (slip_txpoll env cfg) (s'\<lparr>txnodelay := False, d_buf := D_TXBUF\<rparr>))
           \<and> (bifup s' \<and> \<not> 0 < (now - start) div tick_per_hsec cfg \<longrightarrow>
                polled (slip_txtask_iter env cfg now start s') = Some Tx_Poll
                \<and> link (slip_txtask_iter env cfg now start s')
                    = devif_poll env (slip_txpoll env cfg) (s'\<lparr>txnodelay := False, d_buf := D_TXBUF\<rparr>))
           \<and> (\<not> bifup s' \<longrightarrow>
                polled (slip_txtask_iter env cfg now start s') = None
                \<and> link (slip_txtask_iter env cfg now start s') = Some (s'\<lparr>txnodelay := False\<rparr>))"
  using slip_transmit_stuff [OF assms]
  by (simp add: slip_txtask_iter_def Let_def)

theorem slip_transmit_sets_txnodelay_witness:
  "unat (d_len test_sender) \<le> dev_size test_config test_sender
   \<and> (\<exists>s'. slip_transmit test_config test_sender = Some s'
          \<and> txnodelay s' \<and> bifup s'
          \<and> \<not> slept (slip_txtask_iter test_stack test_config 0 0 s')
          \<and> \<not> 0 < ((0 :: 32 word) - 0) div tick_per_hsec test_config
          \<and> polled (slip_txtask_iter test_stack test_config 0 0 s') = Some Tx_Poll
          \<and> link (slip_txtask_iter test_stack test_config 0 0 s')
              = devif_poll test_stack (slip_txpoll test_stack test_config)
                  (s'\<lparr>txnodelay := False, d_buf := D_TXBUF\<rparr>)
          \<and> 0 < ((100 :: 32 word) - 0) div tick_per_hsec test_config
          \<and> polled (slip_txtask_iter test_stack test_config 100 0 s') = Some Timer_Poll
          \<and> link (slip_txtask_iter test_stack test_config 100 0 s')
              = devif_timer test_stack (slip_txpoll test_stack test_config)
                  (s'\<lparr>txnodelay := False, d_buf := D_TXBUF\<rparr>))
   \<and> unat (d_len (slip_ifdown test_sender)) \<le> dev_size test_config (slip_ifdown test_sender)
   \<and> (\<exists>s'. slip_transmit test_config (slip_ifdown test_sender) = Some s'
          \<and> txnodelay s' \<and> \<not> bifup s'
          \<and> \<not> slept (slip_txtask_iter test_stack test_config 0 0 s')
          \<and> polled (slip_txtask_iter test_stack test_config 0 0 s') = None
          \<and> link (slip_txtask_iter test_stack test_config 0 0 s') = Some (s'\<lparr>txnodelay := False\<rparr>))"
proof -
  have h: "unat (d_len test_sender) \<le> dev_size test_config test_sender"
    by (simp add: test_sender_def test_link_def dev_size_def bufsize_def)
  have g: "unat (d_len (slip_ifdown test_sender)) \<le> dev_size test_config (slip_ifdown test_sender)"
    by (simp add: slip_ifdown_def test_sender_def test_link_def dev_size_def bufsize_def)
  have t0: "\<not> 0 < ((0 :: 32 word) - 0) div tick_per_hsec test_config"
    by simp
  have t1: "0 < ((100 :: 32 word) - 0) div tick_per_hsec test_config"
    by (simp add: test_config_def)
  from slip_transmit_stuff [OF h] have up: "\<And>s'. slip_transmit test_config test_sender = Some s' \<Longrightarrow> bifup s'"
    by (auto simp: test_sender_def test_link_def)
  from slip_transmit_stuff [OF g]
  have down: "\<And>s'. slip_transmit test_config (slip_ifdown test_sender) = Some s' \<Longrightarrow> \<not> bifup s'"
    by (auto simp: slip_ifdown_def)
  have A: "\<exists>s'. slip_transmit test_config test_sender = Some s'
          \<and> txnodelay s' \<and> bifup s'
          \<and> \<not> slept (slip_txtask_iter test_stack test_config 0 0 s')
          \<and> \<not> 0 < ((0 :: 32 word) - 0) div tick_per_hsec test_config
          \<and> polled (slip_txtask_iter test_stack test_config 0 0 s') = Some Tx_Poll
          \<and> link (slip_txtask_iter test_stack test_config 0 0 s')
              = devif_poll test_stack (slip_txpoll test_stack test_config)
                  (s'\<lparr>txnodelay := False, d_buf := D_TXBUF\<rparr>)
          \<and> 0 < ((100 :: 32 word) - 0) div tick_per_hsec test_config
          \<and> polled (slip_txtask_iter test_stack test_config 100 0 s') = Some Timer_Poll
          \<and> link (slip_txtask_iter test_stack test_config 100 0 s')
              = devif_timer test_stack (slip_txpoll test_stack test_config)
                  (s'\<lparr>txnodelay := False, d_buf := D_TXBUF\<rparr>)"
    using slip_transmit_sets_txnodelay [OF h, of test_stack 0 0]
      slip_transmit_sets_txnodelay [OF h, of test_stack 100 0] up t0 t1
    by (metis option.inject)
  have B: "\<exists>s'. slip_transmit test_config (slip_ifdown test_sender) = Some s'
          \<and> txnodelay s' \<and> \<not> bifup s'
          \<and> \<not> slept (slip_txtask_iter test_stack test_config 0 0 s')
          \<and> polled (slip_txtask_iter test_stack test_config 0 0 s') = None
          \<and> link (slip_txtask_iter test_stack test_config 0 0 s') = Some (s'\<lparr>txnodelay := False\<rparr>)"
    using slip_transmit_sets_txnodelay [OF g, of test_stack 0 0] down
    by blast
  from h g A B show ?thesis by blast
qed
end
